theory Spec2Isabelle
  imports Main "HOL-Library.Multiset" "HOL-Library.AList"
begin

section \<open>Strings: the library functions used by the registry\<close>

text \<open>
  Go strings are byte sequences; they are modelled as \<open>string\<close> (a list of 8-bit
  characters). The three library functions that \<open>Package.uniqueName\<close> calls are written
  out: \<open>strings.Split\<close> on the separator \<open>/\<close>, \<open>strings.ToLower\<close> and the
  \<open>strings.Replacer\<close> built by \<open>strings.NewReplacer\<close>.
\<close>

text \<open>
  \<open>strings.Split(s, "/")\<close>: the pieces between the separators; the empty string
  gives one empty piece.
\<close>

fun Split :: "string \<Rightarrow> string list" where
  "Split [] = [[]]"
| "Split (c # cs) =
     (if c = CHR ''/'' then [] # Split cs
      else (case Split cs of [] \<Rightarrow> [[c]] | x # xs \<Rightarrow> (c # x) # xs))"

text \<open>
  \<open>strings.ToLower\<close> on the ASCII letters; every other byte is kept. (On bytes
  outside ASCII Go maps the decoded code points; import paths of that kind are outside
  this model.)
\<close>

definition lower_char :: "char \<Rightarrow> char" where
  "lower_char c =
     (case map_of (zip ''ABCDEFGHIJKLMNOPQRSTUVWXYZ'' ''abcdefghijklmnopqrstuvwxyz'') c of
        Some d \<Rightarrow> d
      | None \<Rightarrow> c)"

definition ToLower :: "string \<Rightarrow> string" where
  "ToLower s = map lower_char s"

text \<open>
  The argument list of \<open>strings.NewReplacer\<close> in the source, as (old, new) pairs in
  argument order.
\<close>

definition oldnew :: "(string \<times> string) list" where
  "oldnew =
     [(''go-'', ''''), (''-go'', ''''), (''-'', ''''), (''_'', ''''),
      (''.'', ''''), (''@'', ''''), (''+'', ''''), (''~'', '''')]"

text \<open>
  The replacer compares the old strings in argument order at the current position:
  the first pair whose old string is a prefix of the rest of the input is taken.
\<close>

fun lookup :: "(string \<times> string) list \<Rightarrow> string \<Rightarrow> (string \<times> string) option" where
  "lookup [] s = None"
| "lookup ((old, new) # ps) s =
     (if take (length old) s = old then Some (old, new) else lookup ps s)"

text \<open>
  \<open>replacer.Replace\<close>: replacements are performed in the order they appear in the
  input, without overlapping matches; a byte at which no old string starts is copied.
\<close>

function Replace :: "string \<Rightarrow> string" where
  "Replace [] = []"
| "Replace (c # cs) =
     (case lookup oldnew (c # cs) of
        Some (old, new) \<Rightarrow> new @ Replace (drop (length old) (c # cs))
      | None \<Rightarrow> c # Replace cs)"
  by pat_completeness auto
termination
proof (relation "measure length")
  show "wf (measure length)" by simp
next
  fix c cs x2 x y
  assume "lookup oldnew (c # cs) = Some x2" and "(x, y) = x2"
  then have "lookup oldnew (c # cs) = Some (x, y)" by simp
  then have "x \<noteq> []" by (auto simp: oldnew_def split: if_splits)
  then show "(drop (length x) (c # cs), c # cs) \<in> measure length"
    by (cases x) auto
next
  fix c cs
  show "(cs, c # cs) \<in> measure length" by simp
qed

section \<open>Packages\<close>

text \<open>
  \<open>types.Package\<close> of the Go type checker: the registry reads its name and its
  import path only.
\<close>

record TPackage =
  pkg_name :: string
  pkg_path :: string

text \<open>The struct \<open>Package\<close>: the imported package and the alias given to it.\<close>

record Package =
  pkg :: TPackage
  Alias :: string

text \<open>
  \<open>Qualifier\<close> has a pointer receiver: the argument is \<open>None\<close> for the nil
  pointer and \<open>Some p\<close> for a pointer to the struct \<open>p\<close>.
\<close>

definition Qualifier :: "Package option \<Rightarrow> string" where
  "Qualifier p =
     (case p of
        None \<Rightarrow> ''''
      | Some q \<Rightarrow> if Alias q \<noteq> '''' then Alias q else pkg_name (pkg q))"

text \<open>
  \<open>Path\<close>: the import path without vendor; \<open>stripVendorPath\<close> is not among the
  sources and is the parameter \<open>strip\<close>.
\<close>

definition Path :: "(string \<Rightarrow> string) \<Rightarrow> Package option \<Rightarrow> string" where
  "Path strip p = (case p of None \<Rightarrow> '''' | Some q \<Rightarrow> strip (pkg_path (pkg q)))"

text \<open>
  \<open>reverse\<close>: the loop runs \<open>i\<close> from \<open>len(a)/2 - 1\<close> down to \<open>0\<close> and swaps
  \<open>a[i]\<close> with \<open>a[len(a) - 1 - i]\<close>. The first argument of the loop function is
  \<open>i + 1\<close>.
\<close>

fun reverse_loop :: "nat \<Rightarrow> 'a list \<Rightarrow> 'a list" where
  "reverse_loop 0 a = a"
| "reverse_loop (Suc i) a =
     (let opp = length a - 1 - i
      in reverse_loop i (a[i := a ! opp, opp := a ! i]))"

definition reverse :: "'a list \<Rightarrow> 'a list" where
  "reverse a = reverse_loop (length a div 2) a"

text \<open>
  The loop of \<open>uniqueName\<close>: \<open>for i := 0; i < bound; i++\<close>, each round putting the
  sanitised component \<open>pp[i]\<close> in front of the name.
\<close>

function uniqueName_loop :: "string list \<Rightarrow> nat \<Rightarrow> nat \<Rightarrow> string \<Rightarrow> string" where
  "uniqueName_loop pp bound i name =
     (if i < bound
      then uniqueName_loop pp bound (i + 1) (ToLower (Replace (pp ! i)) @ name)
      else name)"
  by pat_completeness auto
termination
  by (relation "measure (\<lambda>(pp, bound, i, name). bound - i)") auto

declare uniqueName_loop.simps [simp del]

text \<open>
  \<open>uniqueName\<close>: \<open>lvl\<close> is a Go \<open>int\<close>; the bound \<open>min(len(pp), lvl+1)\<close> is computed
  on integers, and a bound below one runs no round.
\<close>

definition uniqueName :: "(string \<Rightarrow> string) \<Rightarrow> Package \<Rightarrow> int \<Rightarrow> string" where
  "uniqueName strip p lvl =
     (let pp = reverse (Split (Path strip (Some p)))
      in uniqueName_loop pp (nat (min (int (length pp)) (lvl + 1))) 0 '''')"

text \<open>
  Modelled from the spec: \<open>stripVendorPath\<close>, which is not among the sources. The
  spec: everything up to and including a \<open>vendor/\<close> path segment is discarded.
\<close>

fun after_vendor :: "string list \<Rightarrow> string list option" where
  "after_vendor [] = None"
| "after_vendor (s # ss) =
     (if s = ''vendor'' \<and> ss \<noteq> [] then Some ss else after_vendor ss)"

fun Join :: "string list \<Rightarrow> string" where
  "Join [] = []"
| "Join [s] = s"
| "Join (s # ss) = s @ ''/'' @ Join ss"

definition stripVendorPath :: "string \<Rightarrow> string" where
  "stripVendorPath p = (case after_vendor (Split p) of None \<Rightarrow> p | Some ss \<Rightarrow> Join ss)"

section \<open>Type nodes and variables of the type checker\<close>

text \<open>
  The types of \<open>go/types\<close> that \<open>populateImports\<close> switches on, with their
  parts: of a named type the package of its object (nil for a predeclared type such as
  \<open>error\<close>), its name and its type arguments (\<open>TypeArgs\<close>, none unless the type is
  an instance of a generic type); of a signature the types of its parameters and of
  its results; of a struct the types of its fields; of an interface the types of its
  explicit methods and its embedded types. \<open>Basic\<close> stands for every type the switch
  has no case for. A type refers back to itself through the declaration of a named
  type only, which is no part of the node, so a tree is enough.
\<close>

datatype ty =
    Named "TPackage option" string "ty list"
  | Array ty
  | Slice ty
  | Signature "ty list" "ty list"
  | Map ty ty
  | Chan ty
  | Pointer ty
  | Struct "ty list"
  | Interface "ty list" "ty list"
  | Basic string

text \<open>\<open>types.Var\<close>: a declared parameter or result, with its name and its type.\<close>

record TVar =
  var_name :: string
  var_type :: ty

section \<open>The method scope\<close>

text \<open>
  A \<open>*Package\<close> is a value of type \<open>'p option\<close>: \<open>None\<close> is nil, \<open>Some a\<close>
  the address \<open>a\<close> of a \<open>Package\<close> that the registry owns. The map
  \<open>map[string]*Package\<close> is an association list with one entry for each key; the
  field \<open>imports\<close> of \<open>Var\<close> is written \<open>var_imports\<close>.
\<close>

type_synonym 'p import_map = "(string \<times> 'p option) list"

record 'p Var =
  vr :: TVar
  var_imports :: "'p import_map"
  miripPkgPath :: string
  Name :: string

text \<open>
  \<open>MethodScope\<close>: the slice \<open>vars\<close> holds pointers, so a variable is addressed by
  its index and renamed in place; \<open>conflicted\<close> is the set of the keys which the map
  \<open>conflicted\<close> holds with the value true. The field \<open>registry\<close> is a pointer to
  the shared registry, whose state is passed along with the scope.
\<close>

record 'p MethodScope =
  scopePkgPath :: string
  vars :: "'p Var list"
  conflicted :: "string set"

text \<open>
  The parts of this repository that the method scope calls and that are not among the
  sources are parameters: \<open>stripVendorPath\<close>, \<open>varNameForType\<close>, and of the
  registry (with a state of type \<open>'r\<close>) \<open>AddImport\<close>, which returns a \<open>*Package\<close>,
  and \<open>searchImport\<close>, of which \<open>AddVar\<close> reads the second result only.
  \<open>deref\<close> reads the \<open>Package\<close> at an address. Calls to the registry are taken to
  return.
\<close>

record ('r, 'p) deps =
  strip :: "string \<Rightarrow> string"
  varNameForType :: "ty \<Rightarrow> string"
  AddImport :: "'r \<Rightarrow> TPackage \<Rightarrow> 'r \<times> 'p option"
  searchImport :: "'r \<Rightarrow> string \<Rightarrow> bool"
  deref :: "'r \<Rightarrow> 'p \<Rightarrow> Package"

text \<open>
  \<open>range\<close> over a Go map visits the entries in an order that the language leaves
  open. The order is a parameter: \<open>range_order ks\<close> picks the next entry by the next
  number of \<open>ks\<close> among those not visited yet.
\<close>

fun range_order :: "nat list \<Rightarrow> 'a list \<Rightarrow> 'a list" where
  "range_order ks [] = []"
| "range_order [] (x # xs) = x # xs"
| "range_order (k # ks) (x # xs) =
     (let i = k mod length (x # xs)
      in (x # xs) ! i # range_order ks (take i (x # xs) @ drop (Suc i) (x # xs)))"

text \<open>
  \<open>populateImports\<close>: the type switch, case by case. The registry state and the map
  \<open>imports\<close> are passed through. The case of a named type reads the package of the
  object (\<open>t.Obj().Pkg()\<close>) and does not walk the type arguments.
\<close>

fun populateImports ::
  "('r, 'p) deps \<Rightarrow> ty \<Rightarrow> 'r \<times> 'p import_map \<Rightarrow> 'r \<times> 'p import_map" where
  "populateImports d (Named po n targs) (r, im) =
     (case po of
        None \<Rightarrow> (r, im)
      | Some p \<Rightarrow>
          (let (r', ptr) = AddImport d r p
           in (r', AList.update (strip d (pkg_path p)) ptr im)))"
| "populateImports d (Array t) s = populateImports d t s"
| "populateImports d (Slice t) s = populateImports d t s"
| "populateImports d (Signature ps rs) s =
     fold (populateImports d) rs (fold (populateImports d) ps s)"
| "populateImports d (Map k e) s = populateImports d e (populateImports d k s)"
| "populateImports d (Chan t) s = populateImports d t s"
| "populateImports d (Pointer t) s = populateImports d t s"
| "populateImports d (Struct fs) s = fold (populateImports d) fs s"
| "populateImports d (Interface ms es) s =
     fold (populateImports d) es (fold (populateImports d) ms s)"
| "populateImports d (Basic b) s = s"

text \<open>\<open>searchVar\<close>: the first variable with the name, as its index.\<close>

fun searchVar :: "'p Var list \<Rightarrow> string \<Rightarrow> nat option" where
  "searchVar [] name = None"
| "searchVar (v # vs) name =
     (if Name v = name then Some 0 else map_option Suc (searchVar vs name))"

text \<open>The assignment \<open>v.Name += s\<close> through the pointer with index \<open>i\<close>.\<close>

definition append_name :: "nat \<Rightarrow> string \<Rightarrow> 'p Var list \<Rightarrow> 'p Var list" where
  "append_name i s vs = vs[i := (vs ! i)\<lparr>Name := Name (vs ! i) @ s\<rparr>]"

text \<open>
  \<open>resolveImportVarConflicts\<close>: the body of the loop for one entry, and the loop
  over the entries in the order \<open>range\<close> visits them.
\<close>

definition import_conflict_step ::
  "('r, 'p) deps \<Rightarrow> 'r \<Rightarrow> string \<times> 'p option \<Rightarrow> 'p MethodScope \<Rightarrow> 'p MethodScope" where
  "import_conflict_step d r e m =
     (case searchVar (vars m) (Qualifier (map_option (deref d r) (snd e))) of
        Some i \<Rightarrow> m\<lparr>vars := append_name i ''MirippParam'' (vars m)\<rparr>
      | None \<Rightarrow> m)"

definition resolveImportVarConflicts ::
  "('r, 'p) deps \<Rightarrow> nat list \<Rightarrow> 'r \<Rightarrow> 'p MethodScope \<Rightarrow> 'p import_map \<Rightarrow> 'p MethodScope" where
  "resolveImportVarConflicts d ks r m im =
     fold (import_conflict_step d r) (range_order ks im) m"

text \<open>
  \<open>strconv.Itoa\<close> on the numbers the loop of \<open>resolveVarNameConflict\<close> counts
  through (\<open>n\<close> starts at one and grows): the decimal digits.
\<close>

definition digit :: "nat \<Rightarrow> char" where
  "digit d = ''0123456789'' ! d"

fun Itoa :: "nat \<Rightarrow> string" where
  "Itoa n = (if n < 10 then [digit n] else Itoa (n div 10) @ [digit (n mod 10)])"

declare Itoa.simps [simp del]

text \<open>Reading a decimal numeral back; it shows that \<open>Itoa\<close> is injective.\<close>

definition digit_val :: "char \<Rightarrow> nat" where
  "digit_val c =
     (case map_of (zip ''0123456789'' [0, 1, 2, 3, 4, 5, 6, 7, 8, 9]) c of
        Some d \<Rightarrow> d
      | None \<Rightarrow> 0)"

definition Atoi :: "string \<Rightarrow> nat" where
  "Atoi s = foldl (\<lambda>a c. 10 * a + digit_val c) 0 s"

lemma digit_val_digit: "d < 10 \<Longrightarrow> digit_val (digit d) = d"
proof -
  assume "d < 10"
  then have "d \<in> {0, 1, 2, 3, 4, 5, 6, 7, 8, 9}" by auto
  then show ?thesis by (auto simp: digit_val_def digit_def)
qed

lemma Atoi_Itoa: "Atoi (Itoa n) = n"
proof (induction n rule: Itoa.induct)
  case (1 n)
  show ?case
  proof (cases "n < 10")
    case True
    then show ?thesis by (subst Itoa.simps) (simp add: Atoi_def digit_val_digit)
  next
    case False
    then have "Atoi (Itoa (n div 10)) = n div 10" using 1 by simp
    then show ?thesis using False
      by (subst Itoa.simps) (simp add: Atoi_def digit_val_digit)
  qed
qed

lemma Itoa_inj: "Itoa a = Itoa b \<Longrightarrow> a = b"
  by (metis Atoi_Itoa)

lemma searchVar_None_iff: "searchVar vs x = None \<longleftrightarrow> x \<notin> Name ` set vs"
  by (induction vs) auto

text \<open>
  \<open>resolveVarNameConflict\<close>: the loop \<open>for n := 1; ; n++\<close>. The result is \<open>None\<close>
  when the loop dereferences the nil pointer that \<open>searchVar\<close> returns for a name
  no variable has (\<open>conflict.Name += "1"\<close>); otherwise the scope after the loop and
  the name returned. The loop ends because the scope has finitely many variables and
  the candidates are all different.
\<close>

function resolveVarNameConflict_loop ::
  "'p MethodScope \<Rightarrow> string \<Rightarrow> nat \<Rightarrow> ('p MethodScope \<times> string) option" where
  "resolveVarNameConflict_loop m suggested n =
     (if searchVar (vars m) (suggested @ Itoa n) \<noteq> None
      then resolveVarNameConflict_loop m suggested (n + 1)
      else if n = 1
      then (case searchVar (vars m) suggested of
              None \<Rightarrow> None
            | Some i \<Rightarrow>
                Some (m\<lparr>vars := append_name i ''1'' (vars m),
                        conflicted := insert suggested (conflicted m)\<rparr>,
                      suggested @ Itoa (n + 1)))
      else Some (m, suggested @ Itoa n))"
  by pat_completeness auto
termination
proof (relation
    "measure (\<lambda>(m, s, n). card {k. n \<le> k \<and> s @ Itoa k \<in> Name ` set (vars m)})")
  show "wf (measure (\<lambda>(m :: 'p MethodScope, s, n).
      card {k. n \<le> k \<and> s @ Itoa k \<in> Name ` set (vars m)}))"
    by simp
next
  fix m :: "'p MethodScope" and suggested :: string and n :: nat
  assume found: "searchVar (vars m) (suggested @ Itoa n) \<noteq> None"
  let ?S = "\<lambda>j. {k. j \<le> k \<and> suggested @ Itoa k \<in> Name ` set (vars m)}"
  have "inj (\<lambda>k. suggested @ Itoa k)" by (auto simp: inj_def dest: Itoa_inj)
  then have "finite ((\<lambda>k. suggested @ Itoa k) -` (Name ` set (vars m)))"
    by (intro finite_vimageI) auto
  then have fin: "finite (?S n)" by (rule rev_finite_subset) auto
  have mem: "n \<in> ?S n" using found by (simp add: searchVar_None_iff)
  have "card (?S (n + 1)) \<le> card (?S n - {n})"
    by (rule card_mono) (use fin in auto)
  also have "\<dots> < card (?S n)"
    by (rule card_Diff1_less [OF fin mem])
  finally have "card (?S (n + 1)) < card (?S n)" .
  then show "((m, suggested, n + 1), (m, suggested, n))
      \<in> measure (\<lambda>(m, s, n). card {k. n \<le> k \<and> s @ Itoa k \<in> Name ` set (vars m)})"
    by simp
qed

declare resolveVarNameConflict_loop.simps [simp del]

definition resolveVarNameConflict ::
  "'p MethodScope \<Rightarrow> string \<Rightarrow> ('p MethodScope \<times> string) option" where
  "resolveVarNameConflict m suggested = resolveVarNameConflict_loop m suggested 1"

text \<open>The names in the \<open>switch\<close> of \<open>varName\<close>, in the order of the source.\<close>

definition reserved :: "string list" where
  "reserved =
     [''mock'', ''callInfo'', ''break'', ''default'', ''func'', ''interface'', ''select'',
      ''case'', ''defer'', ''go'', ''map'', ''struct'', ''chan'', ''else'', ''goto'',
      ''package'', ''switch'', ''const'', ''fallthrough'', ''if'', ''range'', ''type'',
      ''continue'', ''for'', ''import'', ''return'', ''var'',
      ''string'', ''bool'', ''byte'', ''rune'', ''uintptr'',
      ''int'', ''int8'', ''int16'', ''int32'', ''int64'',
      ''uint'', ''uint8'', ''uint16'', ''uint32'', ''uint64'',
      ''float32'', ''float64'', ''complex64'', ''complex128'']"

definition varName :: "(ty \<Rightarrow> string) \<Rightarrow> TVar \<Rightarrow> string \<Rightarrow> string" where
  "varName nameForType v suffix =
     (let name = var_name v
      in if name \<noteq> '''' \<and> name \<noteq> ''_'' then name @ suffix
         else (let name = nameForType (var_type v) @ suffix
               in if name \<in> set reserved then name @ ''MiripParam'' else name))"

text \<open>
  \<open>AddVar\<close>: the registry state \<open>r\<close> and the scope \<open>m\<close> go in and come out; the
  pointer returned is the index of the new variable in \<open>vars\<close>. \<open>ks\<close> is the order
  in which \<open>range\<close> visits the map \<open>imports\<close>. The result is \<open>None\<close> when
  \<open>resolveVarNameConflict\<close> dereferences nil.
\<close>

definition AddVar ::
  "('r, 'p) deps \<Rightarrow> nat list \<Rightarrow> 'r \<Rightarrow> 'p MethodScope \<Rightarrow> TVar \<Rightarrow> string
     \<Rightarrow> ('r \<times> 'p MethodScope \<times> nat) option" where
  "AddVar d ks r m v suffix =
     (let (r1, im) = populateImports d (var_type v) (r, []);
          m1 = resolveImportVarConflicts d ks r1 m im;
          name = varName (varNameForType d) v suffix;
          name = (if searchImport d r1 name then name @ ''MiripParam'' else name)
      in case (if searchVar (vars m1) name \<noteq> None \<or> name \<in> conflicted m1
               then resolveVarNameConflict m1 name
               else Some (m1, name)) of
           None \<Rightarrow> None
         | Some (m2, name) \<Rightarrow>
             Some (r1,
                   m2\<lparr>vars := vars m2 @
                      [\<lparr>vr = v, var_imports = im, miripPkgPath = scopePkgPath m2,
                        Name = name\<rparr>]\<rparr>,
                   length (vars m2)))"

section \<open>Notions for the properties\<close>

text \<open>
  \<open>unwraps t u\<close>: the type node \<open>u\<close> is \<open>t\<close> or lies in \<open>t\<close> under any nesting of
  arrays, slices, signatures (parameters and results), maps (key and element),
  channels, pointers, structs (fields) and interfaces (explicit methods and embedded
  types).
\<close>

inductive unwraps :: "ty \<Rightarrow> ty \<Rightarrow> bool" where
  here: "unwraps t t"
| array: "unwraps t u \<Longrightarrow> unwraps (Array t) u"
| slice: "unwraps t u \<Longrightarrow> unwraps (Slice t) u"
| param: "t \<in> set ps \<Longrightarrow> unwraps t u \<Longrightarrow> unwraps (Signature ps rs) u"
| result: "t \<in> set rs \<Longrightarrow> unwraps t u \<Longrightarrow> unwraps (Signature ps rs) u"
| map_key: "unwraps k u \<Longrightarrow> unwraps (Map k e) u"
| map_elem: "unwraps e u \<Longrightarrow> unwraps (Map k e) u"
| chan: "unwraps t u \<Longrightarrow> unwraps (Chan t) u"
| pointer: "unwraps t u \<Longrightarrow> unwraps (Pointer t) u"
| field: "t \<in> set fs \<Longrightarrow> unwraps t u \<Longrightarrow> unwraps (Struct fs) u"
| explicit_method: "t \<in> set ms \<Longrightarrow> unwraps t u \<Longrightarrow> unwraps (Interface ms es) u"
| embedded_type: "t \<in> set es \<Longrightarrow> unwraps t u \<Longrightarrow> unwraps (Interface ms es) u"

text \<open>
  \<open>reaches t u\<close>: the type node \<open>u\<close> is reachable from \<open>t\<close> in the type graph,
  that is under any such nesting and through the type arguments of named types.
\<close>

inductive reaches :: "ty \<Rightarrow> ty \<Rightarrow> bool" where
  unwrapped: "unwraps t u \<Longrightarrow> reaches t u"
| type_arg: "reaches t (Named po n targs) \<Longrightarrow> a \<in> set targs \<Longrightarrow> reaches a u
     \<Longrightarrow> reaches t u"

text \<open>
  The packages of the named types that the walk comes to, in its order, and the effect
  of the assignment \<open>imports[stripVendorPath(pkg.Path())] = m.registry.AddImport(pkg)\<close>
  for one of them.
\<close>

fun named_pkgs :: "ty \<Rightarrow> TPackage list" where
  "named_pkgs (Named po n targs) = (case po of None \<Rightarrow> [] | Some p \<Rightarrow> [p])"
| "named_pkgs (Array t) = named_pkgs t"
| "named_pkgs (Slice t) = named_pkgs t"
| "named_pkgs (Signature ps rs) = concat (map named_pkgs ps) @ concat (map named_pkgs rs)"
| "named_pkgs (Map k e) = named_pkgs k @ named_pkgs e"
| "named_pkgs (Chan t) = named_pkgs t"
| "named_pkgs (Pointer t) = named_pkgs t"
| "named_pkgs (Struct fs) = concat (map named_pkgs fs)"
| "named_pkgs (Interface ms es) = concat (map named_pkgs ms) @ concat (map named_pkgs es)"
| "named_pkgs (Basic b) = []"

definition register ::
  "('r, 'p) deps \<Rightarrow> TPackage \<Rightarrow> 'r \<times> 'p import_map \<Rightarrow> 'r \<times> 'p import_map" where
  "register d p s =
     (let (r', ptr) = AddImport d (fst s) p
      in (r', AList.update (strip d (pkg_path p)) ptr (snd s)))"

text \<open>
  The qualifiers of the packages a type touches, read after the walk, as
  \<open>resolveImportVarConflicts\<close> reads them.
\<close>

definition touched_qualifiers :: "('r, 'p) deps \<Rightarrow> 'r \<Rightarrow> ty \<Rightarrow> string list" where
  "touched_qualifiers d r t =
     (let (r1, im) = populateImports d t (r, [])
      in map (\<lambda>e. Qualifier (map_option (deref d r1) (snd e))) im)"

text \<open>
  The body of the loop of \<open>resolveImportVarConflicts\<close> as a function of the
  qualifier alone.
\<close>

definition rename_first :: "string \<Rightarrow> 'p MethodScope \<Rightarrow> 'p MethodScope" where
  "rename_first q m =
     (case searchVar (vars m) q of
        Some i \<Rightarrow> m\<lparr>vars := append_name i ''MirippParam'' (vars m)\<rparr>
      | None \<Rightarrow> m)"

section \<open>The registry, as far as the spec describes it\<close>

text \<open>
  Modelled from the spec: the Package Registry, whose operations \<open>AddImport\<close> and
  \<open>searchImport\<close> are not among the sources. The spec: \<open>AddImport\<close> returns the
  existing \<open>Package\<close> if the path was already registered; otherwise it allocates
  one, and if the declared short name already collides with another registered
  package's qualifier, it accumulates a candidate from the last path segment on,
  prepending increasingly distant segments, until the candidate no longer collides with
  any previously allocated qualifier. The registry is the list of the registered paths
  with their packages, in the order of allocation; the address of a \<open>Package\<close> is its
  path. The spec gives the walk no bound; the candidate does not change beyond the
  number of segments, so the walk stops there.
\<close>

type_synonym registry = "(string \<times> Package) list"

definition qualifiers :: "registry \<Rightarrow> string list" where
  "qualifiers r = map (\<lambda>e. Qualifier (Some (snd e))) r"

definition spec_searchImport :: "registry \<Rightarrow> string \<Rightarrow> bool" where
  "spec_searchImport r name = (name \<in> set (qualifiers r))"

fun escalate :: "Package \<Rightarrow> string list \<Rightarrow> nat \<Rightarrow> int \<Rightarrow> string" where
  "escalate p qs 0 lvl = uniqueName stripVendorPath p lvl"
| "escalate p qs (Suc k) lvl =
     (if uniqueName stripVendorPath p lvl \<in> set qs then escalate p qs k (lvl + 1)
      else uniqueName stripVendorPath p lvl)"

definition spec_AddImport :: "registry \<Rightarrow> TPackage \<Rightarrow> registry \<times> string option" where
  "spec_AddImport r tp =
     (let path = stripVendorPath (pkg_path tp)
      in case map_of r path of
           Some q \<Rightarrow> (r, Some path)
         | None \<Rightarrow>
             (let q = \<lparr>pkg = tp, Alias = ''''\<rparr>;
                  q' = (if pkg_name tp \<in> set (qualifiers r)
                        then q\<lparr>Alias := escalate q (qualifiers r) (length (Split path)) 0\<rparr>
                        else q)
              in (r @ [(path, q')], Some path)))"

definition spec_deref :: "registry \<Rightarrow> string \<Rightarrow> Package" where
  "spec_deref r a =
     (case map_of r a of
        Some q \<Rightarrow> q
      | None \<Rightarrow> \<lparr>pkg = \<lparr>pkg_name = '''', pkg_path = ''''\<rparr>, Alias = ''''\<rparr>)"

text \<open>
  The method scope on this registry. The spec does not say which name
  \<open>varNameForType\<close> synthesises for a type; the variables of the examples below have
  declared names, for which it is not called.
\<close>

definition spec_deps :: "(registry, string) deps" where
  "spec_deps =
     \<lparr>strip = stripVendorPath, varNameForType = (\<lambda>t. ''v''),
      AddImport = spec_AddImport, searchImport = spec_searchImport, deref = spec_deref\<rparr>"

section \<open>The command\<close>

text \<open>
  The errors \<open>run\<close> returns: its own, \<open>os.ErrNotExist\<close>, any other error of the
  operating system, and the errors of the generator.
\<close>

datatype error = NotEnoughArguments | ErrNotExist | OSError string | GenError string

record userFlags =
  outFile :: string
  pkgName :: string
  formatter :: string
  stubImpl :: bool
  skipEnsure :: bool
  remove :: bool
  args :: "string list"

record Config =
  SrcDir :: string
  PkgName :: string
  Formatter :: string
  StubImpl :: bool
  SkipEnsure :: bool

text \<open>
  The world \<open>run\<close> acts on: the files with their contents, what was written to the
  standard output, and the failures of the operating system, which are inputs. A
  removal or a directory creation can fail with an error (other than
  \<open>ErrNotExist\<close>); a write can fail before the file is opened (\<open>None\<close>) or after the
  file was truncated and some bytes were written (\<open>Some k\<close>).
\<close>

record world =
  files :: "string \<rightharpoonup> string"
  stdout :: string
  remove_fault :: "string \<Rightarrow> string option"
  mkdir_fault :: "string \<Rightarrow> string option"
  write_fault :: "string \<Rightarrow> (string \<times> nat option) option"

definition os_Remove :: "world \<Rightarrow> string \<Rightarrow> world \<times> error option" where
  "os_Remove w p =
     (case remove_fault w p of
        Some msg \<Rightarrow> (w, Some (OSError msg))
      | None \<Rightarrow>
          if files w p = None then (w, Some ErrNotExist)
          else (w\<lparr>files := (files w)(p := None)\<rparr>, None))"

definition os_MkdirAll :: "world \<Rightarrow> string \<Rightarrow> world \<times> error option" where
  "os_MkdirAll w p =
     (case mkdir_fault w p of Some msg \<Rightarrow> (w, Some (OSError msg)) | None \<Rightarrow> (w, None))"

definition os_WriteFile :: "world \<Rightarrow> string \<Rightarrow> string \<Rightarrow> world \<times> error option" where
  "os_WriteFile w p bytes =
     (case write_fault w p of
        Some (msg, None) \<Rightarrow> (w, Some (OSError msg))
      | Some (msg, Some k) \<Rightarrow> (w\<lparr>files := (files w)(p \<mapsto> take k bytes)\<rparr>, Some (OSError msg))
      | None \<Rightarrow> (w\<lparr>files := (files w)(p \<mapsto> bytes)\<rparr>, None))"

text \<open>
  The generator (package \<open>mirip\<close>) and \<open>filepath.Dir\<close> are parameters. \<open>New\<close> and
  \<open>Mock\<close> read the world; \<open>Mock\<close> returns the bytes it wrote to the writer it was
  given, and its error.
\<close>

record 'm generator =
  New :: "world \<Rightarrow> Config \<Rightarrow> error + 'm"
  Mock :: "world \<Rightarrow> 'm \<Rightarrow> string list \<Rightarrow> string \<times> error option"
  Dir :: "string \<Rightarrow> string"

text \<open>
  The first step of \<open>run\<close> after the check of the arguments: with \<open>-rm\<close> and an
  output file, remove the file; an error other than \<open>ErrNotExist\<close> is returned.
\<close>

definition remove_first :: "userFlags \<Rightarrow> world \<Rightarrow> world \<times> error option" where
  "remove_first flags w =
     (if remove flags \<and> outFile flags \<noteq> ''''
      then (case os_Remove w (outFile flags) of
              (w', Some err) \<Rightarrow> if err \<noteq> ErrNotExist then (w', Some err) else (w', None)
            | (w', None) \<Rightarrow> (w', None))
      else (w, None))"

definition config_of :: "userFlags \<Rightarrow> string \<Rightarrow> Config" where
  "config_of flags srcDir =
     \<lparr>SrcDir = srcDir, PkgName = pkgName flags, Formatter = formatter flags,
      StubImpl = stubImpl flags, SkipEnsure = skipEnsure flags\<rparr>"

text \<open>
  \<open>run\<close>: the world after the call and the error returned (\<open>None\<close> for nil). With
  an output file the writer is the buffer; without one it is the standard output.
\<close>

definition run :: "'m generator \<Rightarrow> userFlags \<Rightarrow> world \<Rightarrow> world \<times> error option" where
  "run g flags w =
     (case args flags of
        srcDir # a # as \<Rightarrow>
          (case remove_first flags w of
             (w1, Some err) \<Rightarrow> (w1, Some err)
           | (w1, None) \<Rightarrow>
               (case New g w1 (config_of flags srcDir) of
                  Inl err \<Rightarrow> (w1, Some err)
                | Inr m \<Rightarrow>
                    (let (written, res) = Mock g w1 m (a # as);
                         buf = (if outFile flags \<noteq> '''' then written else '''');
                         w2 = (if outFile flags \<noteq> '''' then w1
                               else w1\<lparr>stdout := stdout w1 @ written\<rparr>)
                     in case res of
                          Some err \<Rightarrow> (w2, Some err)
                        | None \<Rightarrow>
                            if outFile flags = '''' then (w2, None)
                            else (case os_MkdirAll w2 (Dir g (outFile flags)) of
                                    (w3, Some err) \<Rightarrow> (w3, Some err)
                                  | (w3, None) \<Rightarrow> os_WriteFile w3 (outFile flags) buf))))
      | _ \<Rightarrow> (w, Some NotEnoughArguments))"

section \<open>Examples\<close>

text \<open>A world with an old output file, flags with an output file, and generators with fixed results.\<close>

definition ex_world :: world where
  "ex_world =
     \<lparr>files = [''mock.go'' \<mapsto> ''old''], stdout = '''', remove_fault = (\<lambda>p. None),
      mkdir_fault = (\<lambda>p. None), write_fault = (\<lambda>p. None)\<rparr>"

definition ex_flags :: "bool \<Rightarrow> userFlags" where
  "ex_flags rm =
     \<lparr>outFile = ''mock.go'', pkgName = '''', formatter = '''', stubImpl = False,
      skipEnsure = False, remove = rm, args = [''.'', ''Service'']\<rparr>"

definition ex_generator :: "error + unit \<Rightarrow> string \<times> error option \<Rightarrow> unit generator" where
  "ex_generator n k = \<lparr>New = (\<lambda>w c. n), Mock = (\<lambda>w m as. k), Dir = (\<lambda>p. ''.'')\<rparr>"

text \<open>
  \<open>AddVar\<close> for a list of variables in turn, each with its suffix: the calls a
  caller makes for the parameters and results of one method.
\<close>

fun AddVars ::
  "('r, 'p) deps \<Rightarrow> nat list \<Rightarrow> 'r \<Rightarrow> 'p MethodScope \<Rightarrow> (TVar \<times> string) list
     \<Rightarrow> ('r \<times> 'p MethodScope) option" where
  "AddVars d ks r m [] = Some (r, m)"
| "AddVars d ks r m ((v, suffix) # vs) =
     (case AddVar d ks r m v suffix of
        None \<Rightarrow> None
      | Some (r', m', i) \<Rightarrow> AddVars d ks r' m' vs)"

text \<open>
  A scope without variables, a declared variable of a basic type, and the \<open>Var\<close>
  that the scope holds for it under a name.
\<close>

definition fresh_scope :: "string MethodScope" where
  "fresh_scope = \<lparr>scopePkgPath = ''example.com/app'', vars = [], conflicted = {}\<rparr>"

definition declared :: "string \<Rightarrow> TVar" where
  "declared n = \<lparr>var_name = n, var_type = Basic ''int''\<rparr>"

definition placed :: "string \<Rightarrow> string \<Rightarrow> string Var" where
  "placed n name =
     \<lparr>vr = declared n, var_imports = [], miripPkgPath = ''example.com/app'', Name = name\<rparr>"

text \<open>Packages, and a map type with a key and an element of two packages.\<close>

definition ex_pkg :: "string \<Rightarrow> string \<Rightarrow> TPackage" where
  "ex_pkg n p = \<lparr>pkg_name = n, pkg_path = p\<rparr>"

definition ex_map_type :: "string \<Rightarrow> string \<Rightarrow> ty" where
  "ex_map_type a b =
     Map (Named (Some (ex_pkg a ''example.com/k'')) ''Key'' [])
         (Named (Some (ex_pkg b ''example.com/e'')) ''Elem'' [])"

text \<open>The type \<open>foo.Foo[bar.Bar]\<close>: a generic type of one package, instantiated with a type of another.\<close>

definition ex_generic_type :: ty where
  "ex_generic_type =
     Named (Some (ex_pkg ''foo'' ''example.com/foo'')) ''Foo''
       [Named (Some (ex_pkg ''bar'' ''example.com/bar'')) ''Bar'' []]"

section \<open>Properties of packages\<close>

text \<open>
  The loop of \<open>reverse\<close> reverses the slice, and \<open>uniqueName\<close> is the
  concatenation of the sanitised last \<open>lvl + 1\<close> components of the path.
\<close>

lemma reverse_loop_length [simp]: "length (reverse_loop k a) = length a"
  by (induction k arbitrary: a) (auto simp: Let_def)

lemma reverse_loop_nth:
  "2 * k \<le> length a \<Longrightarrow> j < length a \<Longrightarrow>
   reverse_loop k a ! j =
     (if j < k \<or> length a - k \<le> j then a ! (length a - 1 - j) else a ! j)"
proof (induction k arbitrary: a)
  case 0
  then show ?case by simp
next
  case (Suc k)
  let ?opp = "length a - 1 - k"
  let ?b = "a[k := a ! ?opp, ?opp := a ! k]"
  have len: "length ?b = length a" by simp
  have "reverse_loop (Suc k) a ! j = reverse_loop k ?b ! j" by (simp add: Let_def)
  also have "\<dots> = (if j < k \<or> length ?b - k \<le> j then ?b ! (length ?b - 1 - j) else ?b ! j)"
    using Suc.IH [of ?b] Suc.prems by simp
  also have "\<dots> = (if j < Suc k \<or> length a - Suc k \<le> j then a ! (length a - 1 - j) else a ! j)"
    using Suc.prems by (auto simp: nth_list_update)
  finally show ?case .
qed

lemma reverse_eq_rev: "reverse a = rev a"
proof (rule nth_equalityI)
  show "length (reverse a) = length (rev a)" by (simp add: reverse_def)
next
  fix j assume "j < length (reverse a)"
  then have j: "j < length a" by (simp add: reverse_def)
  have "reverse a ! j = (if j < length a div 2 \<or> length a - length a div 2 \<le> j then a ! (length a - 1 - j) else a ! j)"
    unfolding reverse_def using j by (intro reverse_loop_nth) auto
  also have "\<dots> = a ! (length a - 1 - j)"
  proof -
    have "length a - 1 - j = j" if "\<not> (j < length a div 2 \<or> length a - length a div 2 \<le> j)"
      using that j by linarith
    then show ?thesis by auto
  qed
  also have "\<dots> = rev a ! j" using j by (simp add: rev_nth)
  finally show "reverse a ! j = rev a ! j" .
qed

lemma uniqueName_loop_eq:
  "bound \<le> length pp \<Longrightarrow> i \<le> bound \<Longrightarrow>
   uniqueName_loop pp bound i name =
     concat (rev (map (\<lambda>s. ToLower (Replace s)) (take (bound - i) (drop i pp)))) @ name"
proof (induction pp bound i name rule: uniqueName_loop.induct)
  case (1 pp bound i name)
  show ?case
  proof (cases "i < bound")
    case True
    then have "drop i pp = pp ! i # drop (Suc i) pp"
      using "1.prems" by (simp add: Cons_nth_drop_Suc)
    moreover have "bound - i = Suc (bound - Suc i)" using True by simp
    ultimately show ?thesis
      using "1.IH" [OF True] "1.prems" True
      by (subst uniqueName_loop.simps) simp
  next
    case False
    then show ?thesis using "1.prems" by (subst uniqueName_loop.simps) simp
  qed
qed

lemma uniqueName_eq:
  "uniqueName f p lvl =
     concat (rev (map (\<lambda>s. ToLower (Replace s))
       (take (nat (lvl + 1)) (rev (Split (f (pkg_path (pkg p))))))))"
proof -
  let ?pp = "rev (Split (f (pkg_path (pkg p))))"
  let ?b = "nat (min (int (length ?pp)) (lvl + 1))"
  have "?b \<le> length ?pp" by simp
  then have "uniqueName_loop ?pp ?b 0 '''' =
      concat (rev (map (\<lambda>s. ToLower (Replace s)) (take ?b ?pp)))"
    by (simp add: uniqueName_loop_eq)
  moreover have "take ?b ?pp = take (nat (lvl + 1)) ?pp"
    by (cases "int (length ?pp) \<le> lvl + 1") (simp_all add: min_def)
  ultimately show ?thesis
    by (simp add: uniqueName_def Path_def reverse_eq_rev Let_def)
qed

text \<open>
  C1. The claim: for two different import paths some level \<open>lvl\<close> gives
  \<open>uniqueName\<close> values that differ. The paths \<open>github.com/foo/go-bar\<close> and
  \<open>github.com/foo/bar\<close> are different, both packages may be named \<open>bar\<close>, and
  \<open>uniqueName\<close> gives the same name for both at every level: the replacer removes
  \<open>go-\<close>.
\<close>

theorem uniqueName_equal_on_distinct_paths:
  "''github.com/foo/go-bar'' \<noteq> ''github.com/foo/bar'' \<and>
   uniqueName stripVendorPath
     \<lparr>pkg = \<lparr>pkg_name = ''bar'', pkg_path = ''github.com/foo/go-bar''\<rparr>, Alias = ''''\<rparr> =
   uniqueName stripVendorPath
     \<lparr>pkg = \<lparr>pkg_name = ''bar'', pkg_path = ''github.com/foo/bar''\<rparr>, Alias = ''''\<rparr>"
proof -
  have a: "map (\<lambda>s. ToLower (Replace s)) (rev (Split (stripVendorPath ''github.com/foo/go-bar'')))
      = [''bar'', ''foo'', ''githubcom'']"
    by (simp add: stripVendorPath_def oldnew_def ToLower_def lower_char_def)
  have b: "map (\<lambda>s. ToLower (Replace s)) (rev (Split (stripVendorPath ''github.com/foo/bar'')))
      = [''bar'', ''foo'', ''githubcom'']"
    by (simp add: stripVendorPath_def oldnew_def ToLower_def lower_char_def)
  have "uniqueName stripVendorPath
     \<lparr>pkg = \<lparr>pkg_name = ''bar'', pkg_path = ''github.com/foo/go-bar''\<rparr>, Alias = ''''\<rparr> lvl =
   uniqueName stripVendorPath
     \<lparr>pkg = \<lparr>pkg_name = ''bar'', pkg_path = ''github.com/foo/bar''\<rparr>, Alias = ''''\<rparr> lvl" for lvl
    unfolding uniqueName_eq take_map [symmetric] using a b by simp
  then show ?thesis by (simp add: fun_eq_iff)
qed

text \<open>
  C7. \<open>Qualifier\<close> returns the empty string for the nil package, the alias when the
  alias is not empty, and the declared name of the package otherwise.
\<close>

theorem Qualifier_cases:
  "Qualifier None = '''' \<and>
   (Alias p \<noteq> '''' \<longrightarrow> Qualifier (Some p) = Alias p) \<and>
   (Alias p = '''' \<longrightarrow> Qualifier (Some p) = pkg_name (pkg p))"
  by (simp add: Qualifier_def)

theorem Qualifier_cases_witness:
  "Qualifier (Some \<lparr>pkg = \<lparr>pkg_name = ''client'', pkg_path = ''a/client''\<rparr>,
                    Alias = ''aclient''\<rparr>) = ''aclient'' \<and>
   Qualifier (Some \<lparr>pkg = \<lparr>pkg_name = ''client'', pkg_path = ''a/client''\<rparr>,
                    Alias = ''''\<rparr>) = ''client''"
  using Qualifier_cases
          [of "\<lparr>pkg = \<lparr>pkg_name = ''client'', pkg_path = ''a/client''\<rparr>, Alias = ''aclient''\<rparr>"]
        Qualifier_cases
          [of "\<lparr>pkg = \<lparr>pkg_name = ''client'', pkg_path = ''a/client''\<rparr>, Alias = ''''\<rparr>"]
  by simp

section \<open>Properties of the command\<close>

text \<open>
  The removal step changes nothing but the output file, which it may delete.
\<close>

lemma remove_first_world:
  "remove_first flags w = (w1, res) \<Longrightarrow>
   stdout w1 = stdout w \<and>
   (files w1 = files w \<or> files w1 = (files w)(outFile flags := None))"
  by (auto simp: remove_first_def os_Remove_def split: if_splits option.splits)

text \<open>
  C8. With an output file, the rendered output goes to the buffer, and the file system
  is written only after the generation has succeeded: when \<open>New\<close> or \<open>Mock\<close>
  returns an error, \<open>run\<close> returns that error in the world it had after the removal
  step, so no directory is made, nothing is written to the output file and nothing to
  the standard output; when both succeed, the bytes \<open>Mock\<close> wrote are handed as a
  whole to \<open>os.WriteFile\<close>, after \<open>os.MkdirAll\<close>.
\<close>

theorem run_output_buffered:
  assumes out: "outFile flags \<noteq> ''''"
    and args: "args flags = srcDir # a # as"
    and rm: "remove_first flags w = (w1, None)"
  shows "(New g w1 (config_of flags srcDir) = Inl e \<longrightarrow> run g flags w = (w1, Some e)) \<and>
    (New g w1 (config_of flags srcDir) = Inr m \<and> Mock g w1 m (a # as) = (bytes, Some e)
      \<longrightarrow> run g flags w = (w1, Some e)) \<and>
    (New g w1 (config_of flags srcDir) = Inr m \<and> Mock g w1 m (a # as) = (bytes, None)
      \<longrightarrow> run g flags w =
        (case os_MkdirAll w1 (Dir g (outFile flags)) of
           (w3, Some err) \<Rightarrow> (w3, Some err)
         | (w3, None) \<Rightarrow> os_WriteFile w3 (outFile flags) bytes)) \<and>
    stdout w1 = stdout w \<and>
    (files w1 = files w \<or> files w1 = (files w)(outFile flags := None))"
proof -
  have "New g w1 (config_of flags srcDir) = Inl e \<Longrightarrow> run g flags w = (w1, Some e)"
    using args rm by (simp add: run_def)
  moreover have "run g flags w = (w1, Some e)"
    if "New g w1 (config_of flags srcDir) = Inr m" "Mock g w1 m (a # as) = (bytes, Some e)"
    using that args rm out by (simp add: run_def)
  moreover have "run g flags w =
        (case os_MkdirAll w1 (Dir g (outFile flags)) of
           (w3, Some err) \<Rightarrow> (w3, Some err)
         | (w3, None) \<Rightarrow> os_WriteFile w3 (outFile flags) bytes)"
    if "New g w1 (config_of flags srcDir) = Inr m" "Mock g w1 m (a # as) = (bytes, None)"
    using that args rm out by (simp add: run_def)
  ultimately show ?thesis using remove_first_world [OF rm] by blast
qed

theorem run_output_buffered_witness:
  "run (ex_generator (Inl (GenError ''load'')) ('''', None)) (ex_flags False) ex_world
     = (ex_world, Some (GenError ''load'')) \<and>
   run (ex_generator (Inr ()) (''package'', Some (GenError ''render''))) (ex_flags False) ex_world
     = (ex_world, Some (GenError ''render'')) \<and>
   run (ex_generator (Inr ()) (''package m'', None)) (ex_flags False) ex_world
     = (ex_world\<lparr>files := [''mock.go'' \<mapsto> ''package m'']\<rparr>, None)"
proof -
  have h1: "outFile (ex_flags False) \<noteq> ''''" by (simp add: ex_flags_def)
  have h2: "args (ex_flags False) = ''.'' # ''Service'' # []" by (simp add: ex_flags_def)
  have h3: "remove_first (ex_flags False) ex_world = (ex_world, None)"
    by (simp add: remove_first_def ex_flags_def)
  note t = run_output_buffered [OF h1 h2 h3]
  show ?thesis
    using t [of "ex_generator (Inl (GenError ''load'')) ('''', None)" "GenError ''load''"]
      t [of "ex_generator (Inr ()) (''package'', Some (GenError ''render''))" "GenError ''render''"
          "()" "''package''"]
      t [of "ex_generator (Inr ()) (''package m'', None)" _ "()" "''package m''"]
    by (simp add: ex_generator_def ex_flags_def ex_world_def os_MkdirAll_def os_WriteFile_def)
qed

text \<open>
  C10. With \<open>-rm\<close> and an output file, the file is removed before \<open>New\<close> and
  \<open>Mock\<close> run (they see the world \<open>w1\<close> without it), a missing file is not an
  error, and when the generation then fails, \<open>run\<close> returns its error and leaves the
  world \<open>w1\<close>: the output path has no file and the old content is not restored.
\<close>

theorem run_remove_then_fail:
  assumes rmflag: "remove flags"
    and out: "outFile flags \<noteq> ''''"
    and args: "args flags = srcDir # a # as"
    and nofault: "remove_fault w (outFile flags) = None"
    and w1: "w1 = w\<lparr>files := (files w)(outFile flags := None)\<rparr>"
  shows "remove_first flags w = (w1, None) \<and>
    files w1 (outFile flags) = None \<and>
    (New g w1 (config_of flags srcDir) = Inl e \<longrightarrow> run g flags w = (w1, Some e)) \<and>
    (New g w1 (config_of flags srcDir) = Inr m \<and> Mock g w1 m (a # as) = (bytes, Some e)
      \<longrightarrow> run g flags w = (w1, Some e))"
proof -
  have rm: "remove_first flags w = (w1, None)"
  proof (cases "files w (outFile flags)")
    case None
    then have "(files w)(outFile flags := None) = files w" by (simp add: fun_upd_idem)
    then have "w1 = w" using w1 by simp
    then show ?thesis using rmflag out nofault None
      by (simp add: remove_first_def os_Remove_def)
  next
    case (Some c)
    then show ?thesis using rmflag out nofault w1
      by (simp add: remove_first_def os_Remove_def)
  qed
  moreover have "files w1 (outFile flags) = None" using w1 by simp
  moreover have "New g w1 (config_of flags srcDir) = Inl e \<Longrightarrow> run g flags w = (w1, Some e)"
    using args rm by (simp add: run_def)
  moreover have "run g flags w = (w1, Some e)"
    if "New g w1 (config_of flags srcDir) = Inr m" "Mock g w1 m (a # as) = (bytes, Some e)"
    using that args rm out by (simp add: run_def)
  ultimately show ?thesis by blast
qed

theorem run_remove_then_fail_witness:
  "remove_first (ex_flags True) ex_world = (ex_world\<lparr>files := Map.empty\<rparr>, None) \<and>
   run (ex_generator (Inl (GenError ''load'')) ('''', None)) (ex_flags True) ex_world
     = (ex_world\<lparr>files := Map.empty\<rparr>, Some (GenError ''load'')) \<and>
   run (ex_generator (Inr ()) (''package'', Some (GenError ''render''))) (ex_flags True) ex_world
     = (ex_world\<lparr>files := Map.empty\<rparr>, Some (GenError ''render''))"
proof -
  have h1: "remove (ex_flags True)" by (simp add: ex_flags_def)
  have h2: "outFile (ex_flags True) \<noteq> ''''" by (simp add: ex_flags_def)
  have h3: "args (ex_flags True) = ''.'' # ''Service'' # []" by (simp add: ex_flags_def)
  have h4: "remove_fault ex_world (outFile (ex_flags True)) = None" by (simp add: ex_world_def)
  have h5: "ex_world\<lparr>files := Map.empty\<rparr>
      = ex_world\<lparr>files := (files ex_world)(outFile (ex_flags True) := None)\<rparr>"
    by (simp add: ex_world_def ex_flags_def)
  note t = run_remove_then_fail [OF h1 h2 h3 h4 h5]
  show ?thesis
    using t [of "ex_generator (Inl (GenError ''load'')) ('''', None)" "GenError ''load''"]
      t [of "ex_generator (Inr ()) (''package'', Some (GenError ''render''))" "GenError ''render''"
          "()" "''package''"]
    by (simp add: ex_generator_def ex_flags_def)
qed

section \<open>Properties of the method scope\<close>

subsection \<open>Names of variables\<close>









subsection \<open>Integer suffixes\<close>

text \<open>
  When the candidates with the suffixes from \<open>n\<close> up to \<open>j - 1\<close> are taken and the
  one with \<open>j > 1\<close> is free, the loop started at \<open>n\<close> returns that one and leaves
  the scope as it is. A free suffix always exists.
\<close>

lemma loop_skips:
  assumes "\<forall>k. n \<le> k \<and> k < j \<longrightarrow> s @ Itoa k \<in> Name ` set (vars m)"
    and "s @ Itoa j \<notin> Name ` set (vars m)" and "n \<le> j" and "1 < j"
  shows "resolveVarNameConflict_loop m s n = Some (m, s @ Itoa j)"
  using assms
proof (induction "j - n" arbitrary: n)
  case 0
  then have "n = j" by simp
  then show ?case using 0
    by (subst resolveVarNameConflict_loop.simps) (simp add: searchVar_None_iff)
next
  case (Suc x)
  then have "n < j" by simp
  then have "s @ Itoa n \<in> Name ` set (vars m)" using Suc.prems by simp
  moreover have "resolveVarNameConflict_loop m s (n + 1) = Some (m, s @ Itoa j)"
    using Suc \<open>n < j\<close> by (intro Suc.hyps) auto
  ultimately show ?case
    by (subst resolveVarNameConflict_loop.simps) (simp add: searchVar_None_iff)
qed

lemma free_suffix_exists:
  "\<exists>j\<ge>n. s @ Itoa j \<notin> Name ` set (vars m) \<and> (\<forall>k. n \<le> k \<and> k < j \<longrightarrow> s @ Itoa k \<in> Name ` set (vars m))"
proof -
  have "inj (\<lambda>k. s @ Itoa k)" by (auto simp: inj_def dest: Itoa_inj)
  then have fin: "finite ((\<lambda>k. s @ Itoa k) -` (Name ` set (vars m)))"
    by (intro finite_vimageI) auto
  have "\<exists>j. n \<le> j \<and> s @ Itoa j \<notin> Name ` set (vars m)"
  proof (rule ccontr)
    assume "\<not> ?thesis"
    then have "{n..} \<subseteq> (\<lambda>k. s @ Itoa k) -` (Name ` set (vars m))" by auto
    then have "finite {n..}" using fin by (rule finite_subset)
    then show False by (simp add: infinite_Ici)
  qed
  then obtain j0 where j0: "n \<le> j0 \<and> s @ Itoa j0 \<notin> Name ` set (vars m)" by blast
  define j where "j = (LEAST j. n \<le> j \<and> s @ Itoa j \<notin> Name ` set (vars m))"
  have "n \<le> j \<and> s @ Itoa j \<notin> Name ` set (vars m)"
    unfolding j_def using j0 by (rule LeastI)
  moreover have "s @ Itoa k \<in> Name ` set (vars m)" if "n \<le> k" "k < j" for k
    using that not_less_Least [of k "\<lambda>j. n \<le> j \<and> s @ Itoa j \<notin> Name ` set (vars m)"]
    unfolding j_def by blast
  ultimately show ?thesis by blast
qed

lemma Itoa_1: "Itoa 1 = ''1''"
  by (simp add: Itoa.simps digit_def)

text \<open>
  C9. When the candidate of \<open>AddVar\<close> names a variable of the scope and the candidate
  with the suffix \<open>1\<close> names one too, the variables of the scope keep their names,
  the set \<open>conflicted\<close> is unchanged, and the new variable gets the candidate with the
  least suffix \<open>n \<ge> 2\<close> that names no variable. (\<open>m1\<close> is the scope when the
  candidate is looked up, that is after \<open>resolveImportVarConflicts\<close>.)
\<close>

theorem AddVar_suffix_one_taken:
  assumes pop: "populateImports d (var_type v) (r, []) = (r1, im)"
    and res: "resolveImportVarConflicts d ks r1 m im = m1"
    and cand: "cand = (let name = varName (varNameForType d) v suffix
                       in if searchImport d r1 name then name @ ''MiripParam'' else name)"
    and coll: "cand \<in> Name ` set (vars m1)"
    and one: "cand @ ''1'' \<in> Name ` set (vars m1)"
  shows "\<exists>n. 2 \<le> n \<and> cand @ Itoa n \<notin> Name ` set (vars m1) \<and>
    (\<forall>k. 2 \<le> k \<and> k < n \<longrightarrow> cand @ Itoa k \<in> Name ` set (vars m1)) \<and>
    AddVar d ks r m v suffix =
      Some (r1,
            m1\<lparr>vars := vars m1 @
               [\<lparr>vr = v, var_imports = im, miripPkgPath = scopePkgPath m1,
                 Name = cand @ Itoa n\<rparr>]\<rparr>,
            length (vars m1))"
proof -
  obtain n where n: "2 \<le> n" "cand @ Itoa n \<notin> Name ` set (vars m1)"
    "\<forall>k. 2 \<le> k \<and> k < n \<longrightarrow> cand @ Itoa k \<in> Name ` set (vars m1)"
    using free_suffix_exists [of 2 cand m1] by blast
  have "\<forall>k. 1 \<le> k \<and> k < n \<longrightarrow> cand @ Itoa k \<in> Name ` set (vars m1)"
  proof (intro allI impI)
    fix k assume k: "1 \<le> k \<and> k < n"
    show "cand @ Itoa k \<in> Name ` set (vars m1)"
    proof (cases "k = 1")
      case True
      then show ?thesis using one Itoa_1 by simp
    next
      case False
      then show ?thesis using k n(3) by simp
    qed
  qed
  then have loop: "resolveVarNameConflict m1 cand = Some (m1, cand @ Itoa n)"
    unfolding resolveVarNameConflict_def using n by (intro loop_skips) auto
  have "searchVar (vars m1) cand \<noteq> None" using coll by (simp add: searchVar_None_iff)
  then have "AddVar d ks r m v suffix =
      Some (r1,
            m1\<lparr>vars := vars m1 @
               [\<lparr>vr = v, var_imports = im, miripPkgPath = scopePkgPath m1,
                 Name = cand @ Itoa n\<rparr>]\<rparr>,
            length (vars m1))"
    using pop res cand loop by (simp add: AddVar_def Let_def)
  then show ?thesis using n by blast
qed

theorem AddVar_suffix_one_taken_witness:
  "AddVar spec_deps [] [] (fresh_scope\<lparr>vars := [placed ''v'' ''v'', placed ''v1'' ''v1'']\<rparr>)
     (declared ''v'') ''''
   = Some ([], fresh_scope\<lparr>vars := [placed ''v'' ''v'', placed ''v1'' ''v1'', placed ''v'' ''v2'']\<rparr>, 2)"
proof -
  let ?m = "fresh_scope\<lparr>vars := [placed ''v'' ''v'', placed ''v1'' ''v1'']\<rparr>"
  have h1: "populateImports spec_deps (var_type (declared ''v'')) ([], []) = ([], [])"
    by (simp add: declared_def)
  have h2: "resolveImportVarConflicts spec_deps [] [] ?m [] = ?m"
    by (simp add: resolveImportVarConflicts_def)
  have h3: "''v'' = (let name = varName (varNameForType spec_deps) (declared ''v'') ''''
                     in if searchImport spec_deps [] name then name @ ''MiripParam'' else name)"
    by (simp add: varName_def declared_def spec_deps_def spec_searchImport_def qualifiers_def)
  have h4: "''v'' \<in> Name ` set (vars ?m)" by (simp add: placed_def)
  have h5: "''v'' @ ''1'' \<in> Name ` set (vars ?m)" by (simp add: placed_def)
  obtain n where n: "2 \<le> n" "''v'' @ Itoa n \<notin> Name ` set (vars ?m)"
    "\<forall>k. 2 \<le> k \<and> k < n \<longrightarrow> ''v'' @ Itoa k \<in> Name ` set (vars ?m)"
    and res: "AddVar spec_deps [] [] ?m (declared ''v'') '''' =
      Some ([], ?m\<lparr>vars := vars ?m @
               [\<lparr>vr = declared ''v'', var_imports = [], miripPkgPath = scopePkgPath ?m,
                 Name = ''v'' @ Itoa n\<rparr>]\<rparr>,
            length (vars ?m))"
    using AddVar_suffix_one_taken [OF h1 h2 h3 h4 h5] by blast
  have "n = 2"
  proof (rule ccontr)
    assume "n \<noteq> 2"
    then have "2 < n" using n(1) by simp
    then have "''v'' @ Itoa 2 \<in> Name ` set (vars ?m)" using n(3) by simp
    then show False by (simp add: Itoa.simps digit_def placed_def)
  qed
  then show ?thesis using res
    by (simp add: Itoa.simps digit_def placed_def fresh_scope_def)
qed

text \<open>Evaluation of the examples below.\<close>

lemmas eval_simps =
  AddVar_def spec_deps_def resolveImportVarConflicts_def varName_def
  spec_searchImport_def qualifiers_def fresh_scope_def declared_def placed_def
  resolveVarNameConflict_def resolveVarNameConflict_loop.simps Itoa.simps digit_def
  append_name_def Let_def

text \<open>Evaluation on the registry of the spec.\<close>

lemmas eval_registry =
  spec_AddImport_def spec_deref_def stripVendorPath_def ex_pkg_def ex_map_type_def
  Qualifier_def import_conflict_step_def

text \<open>
  C3. The claim: after every \<open>AddVar\<close> the names of the scope are pairwise distinct.
  Three calls on a new scope, for variables with the candidates \<open>v\<close>, \<open>v2\<close> and
  \<open>v\<close>, leave two variables named \<open>v2\<close>: at the first collision
  \<open>resolveVarNameConflict\<close> renames the first variable to \<open>v1\<close> and returns the
  candidate with the suffix \<open>2\<close> without looking it up.
\<close>

theorem AddVars_duplicate_names:
  "AddVars spec_deps [] [] fresh_scope
     [(declared ''v'', ''''), (declared ''v2'', ''''), (declared ''v'', '''')]
   = Some ([], fresh_scope\<lparr>vars := [placed ''v'' ''v1'', placed ''v2'' ''v2'', placed ''v'' ''v2''],
                         conflicted := {''v''}\<rparr>)"
  by (simp add: eval_simps)

theorem AddVars_duplicate_names_witness:
  "map_option (\<lambda>(r, m). distinct (map Name (vars m)))
     (AddVars spec_deps [] [] fresh_scope
        [(declared ''v'', ''''), (declared ''v2'', ''''), (declared ''v'', '''')])
   = Some False"
  using AddVars_duplicate_names by (simp add: placed_def)

text \<open>
  C5. The claim: the suffixes are tried until the name is free. On a scope with the
  variables \<open>v\<close> and \<open>v2\<close>, \<open>resolveVarNameConflict\<close> for \<open>v\<close> returns \<open>v2\<close>,
  which the scope already has.
\<close>

theorem resolveVarNameConflict_returns_taken_name:
  "resolveVarNameConflict (fresh_scope\<lparr>vars := [placed ''v'' ''v'', placed ''v2'' ''v2'']\<rparr>) ''v''
   = Some (fresh_scope\<lparr>vars := [placed ''v'' ''v1'', placed ''v2'' ''v2''],
                      conflicted := {''v''}\<rparr>, ''v2'')"
  by (simp add: eval_simps)

theorem resolveVarNameConflict_returns_taken_name_witness:
  "map_option (\<lambda>(m, name). name \<in> Name ` set (vars m))
     (resolveVarNameConflict (fresh_scope\<lparr>vars := [placed ''v'' ''v'', placed ''v2'' ''v2'']\<rparr>) ''v'')
   = Some True"
  using resolveVarNameConflict_returns_taken_name by (simp add: placed_def)

text \<open>
  With an integer suffix the name can be a basic type name: two variables without a
  declared name whose synthesised name is \<open>int3\<close> get \<open>int31\<close> and \<open>int32\<close>.
\<close>

lemma AddVars_suffix_basic_type:
  "map_option (\<lambda>(r, m). map Name (vars m))
     (AddVars (spec_deps\<lparr>varNameForType := (\<lambda>t. ''int3'')\<rparr>) [] [] fresh_scope
        [(declared '''', ''''), (declared ''_'', '''')])
   = Some [''int31'', ''int32''] \<and>
   ''int32'' \<in> set reserved"
  by (simp add: eval_simps reserved_def)

text \<open>
  Nine additions of \<open>v\<close> to a new scope give \<open>v1\<close> to \<open>v9\<close>. After \<open>v\<close>, \<open>v\<close>
  and \<open>v1\<close>, a fourth addition of \<open>v\<close> dereferences nil: \<open>v\<close> is marked as
  conflicted, no variable is named \<open>v1\<close> or \<open>v\<close> any more, and the loop renames the
  variable that \<open>searchVar\<close> did not find.
\<close>

lemma AddVars_nine:
  "map_option (\<lambda>(r, m). (map Name (vars m), conflicted m))
     (AddVars spec_deps [] [] fresh_scope (replicate 9 (declared ''v'', '''')))
   = Some ([''v1'', ''v2'', ''v3'', ''v4'', ''v5'', ''v6'', ''v7'', ''v8'', ''v9''], {''v''})"
  by (simp add: eval_simps numeral_nat)

lemma AddVars_nil_dereference:
  "AddVars spec_deps [] [] fresh_scope
     [(declared ''v'', ''''), (declared ''v'', ''''), (declared ''v1'', ''''), (declared ''v'', '''')]
   = None"
  by (simp add: eval_simps)

subsection \<open>Packages of a type\<close>

text \<open>
  \<open>populateImports\<close> is the registration of the packages of the named types it
  comes to, one after the other in the order of the walk.
\<close>

lemma fold_populateImports:
  assumes "\<And>t s. t \<in> set ts \<Longrightarrow> populateImports d t s = fold (register d) (named_pkgs t) s"
  shows "fold (populateImports d) ts s = fold (register d) (concat (map named_pkgs ts)) s"
  using assms by (induction ts arbitrary: s) simp_all

lemma populateImports_fold:
  "populateImports d t s = fold (register d) (named_pkgs t) s"
proof (induction t arbitrary: s)
  case (Named po n targs)
  then show ?case by (cases s; cases po) (simp_all add: register_def)
next
  case (Signature ps rs)
  then show ?case by (simp add: fold_populateImports)
next
  case (Struct fs)
  then show ?case by (simp add: fold_populateImports)
next
  case (Interface ms es)
  then show ?case by (simp add: fold_populateImports)
qed simp_all

lemma unwraps_named_pkgs:
  "unwraps t u \<Longrightarrow> u = Named (Some p) n targs \<Longrightarrow> p \<in> set (named_pkgs t)"
  by (induction rule: unwraps.induct) auto

lemma fold_register_fst:
  "fst (fold (register d) ps s) = fold (\<lambda>q r. fst (AddImport d r q)) ps (fst s)"
  by (induction ps arbitrary: s) (simp_all add: register_def split_beta)

lemma fold_register_keys:
  "fst ` set (snd (fold (register d) ps s)) =
     fst ` set (snd s) \<union> (\<lambda>p. strip d (pkg_path p)) ` set ps"
  by (induction ps arbitrary: s) (auto simp: register_def split_beta dom_update)

text \<open>
  What the walk does cover: for every named type with a package that lies in the type
  under the nesting the switch unwraps, \<open>populateImports\<close> calls \<open>AddImport\<close> on
  the package, and the map has the stripped path of the package as a key; \<open>AddVar\<close>,
  when it returns, has recorded that map in the new variable.
\<close>

lemma populateImports_registers_unwrapped:
  assumes "unwraps t (Named (Some p) n targs)"
    and "populateImports d t (r, im) = (r', im')"
  shows "p \<in> set (named_pkgs t) \<and>
    r' = fold (\<lambda>q s. fst (AddImport d s q)) (named_pkgs t) r \<and>
    strip d (pkg_path p) \<in> fst ` set im'"
proof -
  have p: "p \<in> set (named_pkgs t)" using assms(1) by (rule unwraps_named_pkgs) simp
  have f: "fold (register d) (named_pkgs t) (r, im) = (r', im')"
    using assms(2) by (simp add: populateImports_fold)
  have "r' = fold (\<lambda>q s. fst (AddImport d s q)) (named_pkgs t) r"
    using fold_register_fst [of d "named_pkgs t" "(r, im)"] f by simp
  moreover have "strip d (pkg_path p) \<in> fst ` set im'"
    using fold_register_keys [of d "named_pkgs t" "(r, im)"] f p by auto
  ultimately show ?thesis using p by blast
qed

lemma AddVar_records_imports:
  assumes "AddVar d ks r m v suffix = Some (r', m', i)"
  shows "i < length (vars m') \<and>
    (r', var_imports (vars m' ! i)) = populateImports d (var_type v) (r, [])"
proof -
  obtain r1 im where pop: "populateImports d (var_type v) (r, []) = (r1, im)"
    by (cases "populateImports d (var_type v) (r, [])")
  show ?thesis using assms pop
    by (auto simp: AddVar_def Let_def nth_append split: option.splits if_splits)
qed

lemma AddVar_records_unwrapped:
  assumes "unwraps (var_type v) (Named (Some p) n targs)"
    and "AddVar d ks r m v suffix = Some (r', m', i)"
  shows "r' = fold (\<lambda>q s. fst (AddImport d s q)) (named_pkgs (var_type v)) r \<and>
    p \<in> set (named_pkgs (var_type v)) \<and>
    strip d (pkg_path p) \<in> fst ` set (var_imports (vars m' ! i))"
proof -
  have pop: "populateImports d (var_type v) (r, []) = (r', var_imports (vars m' ! i))"
    using AddVar_records_imports [OF assms(2)] by simp
  show ?thesis
    using populateImports_registers_unwrapped [OF assms(1) pop] by blast
qed

text \<open>
  The case of a named type reads the package of the object only: the type arguments
  make no difference to the walk.
\<close>

lemma populateImports_ignores_type_arguments:
  "populateImports d (Named po n targs) s = populateImports d (Named po n []) s"
  by (cases s) simp

text \<open>
  C6. The claim: every package that owns a named type reachable from the type of the
  variable is registered and recorded in the variable's map of imports. A variable of
  the type \<open>foo.Foo[bar.Bar]\<close>, an instance of a generic type, reaches the named type
  \<open>bar.Bar\<close>; \<open>AddVar\<close> on a new scope and an empty registry registers the package
  \<open>foo\<close> alone and records \<open>foo\<close> alone in the variable.
\<close>

theorem AddVar_misses_type_argument:
  "reaches ex_generic_type (Named (Some (ex_pkg ''bar'' ''example.com/bar'')) ''Bar'' []) \<and>
   AddVar spec_deps [] [] fresh_scope \<lparr>var_name = ''x'', var_type = ex_generic_type\<rparr> ''''
   = Some ([(''example.com/foo'', \<lparr>pkg = ex_pkg ''foo'' ''example.com/foo'', Alias = ''''\<rparr>)],
           fresh_scope\<lparr>vars :=
             [\<lparr>vr = \<lparr>var_name = ''x'', var_type = ex_generic_type\<rparr>,
               var_imports = [(''example.com/foo'', Some ''example.com/foo'')],
               miripPkgPath = ''example.com/app'', Name = ''x''\<rparr>]\<rparr>,
           0)"
proof -
  let ?bar = "Named (Some (ex_pkg ''bar'' ''example.com/bar'')) ''Bar'' []"
  have a: "reaches ex_generic_type
      (Named (Some (ex_pkg ''foo'' ''example.com/foo'')) ''Foo'' [?bar])"
    unfolding ex_generic_type_def by (intro reaches.unwrapped unwraps.here)
  have b: "reaches ?bar ?bar" by (intro reaches.unwrapped unwraps.here)
  have "?bar \<in> set [?bar]" by simp
  then have "reaches ex_generic_type ?bar" using a b reaches.type_arg by blast
  moreover have "AddVar spec_deps [] [] fresh_scope
      \<lparr>var_name = ''x'', var_type = ex_generic_type\<rparr> ''''
   = Some ([(''example.com/foo'', \<lparr>pkg = ex_pkg ''foo'' ''example.com/foo'', Alias = ''''\<rparr>)],
           fresh_scope\<lparr>vars :=
             [\<lparr>vr = \<lparr>var_name = ''x'', var_type = ex_generic_type\<rparr>,
               var_imports = [(''example.com/foo'', Some ''example.com/foo'')],
               miripPkgPath = ''example.com/app'', Name = ''x''\<rparr>]\<rparr>,
           0)"
    by (simp add: eval_simps eval_registry ex_generic_type_def)
  ultimately show ?thesis by blast
qed

theorem AddVar_misses_type_argument_witness:
  "map_option
     (\<lambda>(r, m, i). (''example.com/bar'' \<in> fst ` set r,
                    ''example.com/bar'' \<in> fst ` set (var_imports (vars m ! i))))
     (AddVar spec_deps [] [] fresh_scope \<lparr>var_name = ''x'', var_type = ex_generic_type\<rparr> '''')
   = Some (False, False)"
  using AddVar_misses_type_argument by (simp add: fresh_scope_def)

subsection \<open>Enumeration order of the map of imports\<close>

text \<open>
  \<open>range_order\<close> yields a permutation of the entries, and every permutation for
  some choice of numbers.
\<close>

lemma mset_remove_nth:
  "i < length l \<Longrightarrow> add_mset (l ! i) (mset (take i l @ drop (Suc i) l)) = mset l"
proof -
  assume "i < length l"
  then have "l = take i l @ l ! i # drop (Suc i) l" by (rule id_take_nth_drop)
  then have "mset l = mset (take i l @ l ! i # drop (Suc i) l)" by simp
  then show ?thesis by simp
qed

lemma mset_range_order: "mset (range_order ks xs) = mset xs"
proof (induction ks xs rule: range_order.induct)
  case (3 k ks x xs)
  let ?l = "x # xs"
  let ?i = "k mod length ?l"
  have i: "?i < length ?l" by simp
  have "mset (range_order (k # ks) ?l) =
      add_mset (?l ! ?i) (mset (range_order ks (take ?i ?l @ drop (Suc ?i) ?l)))"
    by (simp add: Let_def)
  also have "\<dots> = add_mset (?l ! ?i) (mset (take ?i ?l @ drop (Suc ?i) ?l))"
    using "3.IH" [of ?i] by simp
  also have "\<dots> = mset ?l" using i by (rule mset_remove_nth)
  finally show ?case .
qed simp_all

lemma range_order_any_permutation:
  "mset ys = mset xs \<Longrightarrow> \<exists>ks. range_order ks xs = ys"
proof (induction ys arbitrary: xs)
  case Nil
  then show ?case by simp
next
  case (Cons y ys)
  then have "y \<in> set xs" by (metis list.set_intros(1) set_mset_mset)
  then obtain i where i: "i < length xs" "xs ! i = y" by (auto simp: in_set_conv_nth)
  let ?rest = "take i xs @ drop (Suc i) xs"
  have "add_mset y (mset ?rest) = mset xs" using i mset_remove_nth by metis
  also have "\<dots> = add_mset y (mset ys)" using Cons.prems by simp
  finally have "mset ys = mset ?rest" by (metis add_mset_add_mset_same_iff)
  then obtain ks where ks: "range_order ks ?rest = ys" using Cons.IH by blast
  obtain x xs' where xs: "xs = x # xs'" using i(1) by (cases xs) auto
  have "range_order (i # ks) xs = y # ys"
    using i ks unfolding xs by (simp add: Let_def)
  then show ?case by blast
qed

lemma searchVar_Some:
  "searchVar vs q = Some i \<Longrightarrow> i < length vs \<and> Name (vs ! i) = q"
  by (induction vs arbitrary: i) (auto split: if_splits)

lemma searchVar_update:
  "i < length vs \<Longrightarrow> Name (vs ! i) \<noteq> q \<Longrightarrow> Name v' \<noteq> q \<Longrightarrow>
   searchVar (vs[i := v']) q = searchVar vs q"
proof (induction vs arbitrary: i)
  case Nil
  then show ?case by simp
next
  case (Cons a vs)
  then show ?case by (cases i) auto
qed

text \<open>
  Renaming the first variable for one qualifier and for another commute, unless one
  qualifier is the other followed by \<open>MirippParam\<close>.
\<close>

lemma searchVar_append_name:
  assumes "searchVar vs q1 = Some i" and "q2 \<noteq> q1" and "q2 \<noteq> q1 @ ''MirippParam''"
  shows "searchVar (append_name i ''MirippParam'' vs) q2 = searchVar vs q2"
proof -
  have "i < length vs" "Name (vs ! i) = q1" using assms(1) searchVar_Some by blast+
  then show ?thesis using assms(2,3)
    unfolding append_name_def by (intro searchVar_update) auto
qed

lemma rename_first_commute:
  assumes "q2 \<noteq> q1 @ ''MirippParam''" and "q1 \<noteq> q2 @ ''MirippParam''"
  shows "rename_first q1 (rename_first q2 m) = rename_first q2 (rename_first q1 m)"
proof (cases "q1 = q2")
  case True
  then show ?thesis by simp
next
  case ne: False
  show ?thesis
  proof (cases "searchVar (vars m) q1")
    case n1: None
    show ?thesis
    proof (cases "searchVar (vars m) q2")
      case None
      then show ?thesis using n1 by (simp add: rename_first_def)
    next
      case (Some j)
      then have "searchVar (append_name j ''MirippParam'' (vars m)) q1 = None"
        using searchVar_append_name [OF Some, of q1] n1 ne assms by simp
      then show ?thesis using n1 Some by (simp add: rename_first_def)
    qed
  next
    case s1: (Some i)
    show ?thesis
    proof (cases "searchVar (vars m) q2")
      case None
      then have "searchVar (append_name i ''MirippParam'' (vars m)) q2 = None"
        using searchVar_append_name [OF s1, of q2] ne assms by simp
      then show ?thesis using s1 None by (simp add: rename_first_def)
    next
      case (Some j)
      have i: "i < length (vars m)" "Name (vars m ! i) = q1" using s1 searchVar_Some by blast+
      have j: "j < length (vars m)" "Name (vars m ! j) = q2" using Some searchVar_Some by blast+
      have ij: "i \<noteq> j" using i j ne by auto
      have a: "searchVar (append_name i ''MirippParam'' (vars m)) q2 = Some j"
        using searchVar_append_name [OF s1, of q2] ne assms Some by simp
      have b: "searchVar (append_name j ''MirippParam'' (vars m)) q1 = Some i"
        using searchVar_append_name [OF Some, of q1] ne assms s1 by simp
      have "append_name j ''MirippParam'' (append_name i ''MirippParam'' (vars m)) =
          append_name i ''MirippParam'' (append_name j ''MirippParam'' (vars m))"
        using ij i j by (simp add: append_name_def list_update_swap)
      then show ?thesis using s1 Some a b by (simp add: rename_first_def)
    qed
  qed
qed

lemma import_conflict_step_rename:
  "import_conflict_step d r e = rename_first (Qualifier (map_option (deref d r) (snd e)))"
  by (simp add: fun_eq_iff import_conflict_step_def rename_first_def)

lemma resolveImportVarConflicts_order:
  assumes "\<And>e e'. e \<in> set im \<Longrightarrow> e' \<in> set im \<Longrightarrow>
      Qualifier (map_option (deref d r) (snd e')) \<noteq>
      Qualifier (map_option (deref d r) (snd e)) @ ''MirippParam''"
  shows "resolveImportVarConflicts d ks r m im = resolveImportVarConflicts d ks' r m im"
proof -
  have set_eq: "set (range_order ks im) = set im"
    by (metis mset_range_order set_mset_mset)
  have "fold (import_conflict_step d r) (range_order ks im) =
      fold (import_conflict_step d r) (range_order ks' im)"
  proof (rule fold_multiset_equiv)
    fix x y
    assume "x \<in> set (range_order ks im)" and "y \<in> set (range_order ks im)"
    then have "x \<in> set im" "y \<in> set im" using set_eq by auto
    then show "import_conflict_step d r x \<circ> import_conflict_step d r y =
        import_conflict_step d r y \<circ> import_conflict_step d r x"
      using assms [of x y] assms [of y x]
      by (simp add: import_conflict_step_rename fun_eq_iff rename_first_commute)
  next
    show "mset (range_order ks im) = mset (range_order ks' im)"
      by (simp add: mset_range_order)
  qed
  then show ?thesis by (simp add: resolveImportVarConflicts_def)
qed

text \<open>
  The order in which \<open>range\<close> visits the map of imports makes no difference to
  \<open>AddVar\<close> when no package touched by the variable has a qualifier that is the
  qualifier of another touched package followed by \<open>MirippParam\<close>.
\<close>

lemma AddVar_order_independent:
  assumes "\<forall>q \<in> set (touched_qualifiers d r (var_type v)).
      q @ ''MirippParam'' \<notin> set (touched_qualifiers d r (var_type v))"
  shows "AddVar d ks r m v suffix = AddVar d ks' r m v suffix"
proof -
  obtain r1 im where pop: "populateImports d (var_type v) (r, []) = (r1, im)"
    by (cases "populateImports d (var_type v) (r, [])")
  have tq: "set (touched_qualifiers d r (var_type v)) =
      (\<lambda>e. Qualifier (map_option (deref d r1) (snd e))) ` set im"
    using pop by (simp add: touched_qualifiers_def)
  have "Qualifier (map_option (deref d r1) (snd e')) \<noteq>
      Qualifier (map_option (deref d r1) (snd e)) @ ''MirippParam''"
    if "e \<in> set im" "e' \<in> set im" for e e'
  proof -
    have "Qualifier (map_option (deref d r1) (snd e)) \<in> set (touched_qualifiers d r (var_type v))"
      and "Qualifier (map_option (deref d r1) (snd e')) \<in> set (touched_qualifiers d r (var_type v))"
      using that tq by auto
    then show ?thesis using assms by metis
  qed
  then have "resolveImportVarConflicts d ks r1 m im = resolveImportVarConflicts d ks' r1 m im"
    by (rule resolveImportVarConflicts_order)
  then show ?thesis using pop by (simp add: AddVar_def)
qed

lemma AddVar_order_independent_example:
  "AddVar spec_deps [0] [] (fresh_scope\<lparr>vars := [placed ''a'' ''a'']\<rparr>)
        \<lparr>var_name = ''x'', var_type = ex_map_type ''a'' ''b''\<rparr> ''''
   = AddVar spec_deps [1] [] (fresh_scope\<lparr>vars := [placed ''a'' ''a'']\<rparr>)
        \<lparr>var_name = ''x'', var_type = ex_map_type ''a'' ''b''\<rparr> ''''"
proof -
  have "touched_qualifiers spec_deps [] (ex_map_type ''a'' ''b'') = [''a'', ''b'']"
    by (simp add: touched_qualifiers_def spec_deps_def qualifiers_def eval_registry Let_def)
  then have h: "\<forall>q \<in> set (touched_qualifiers spec_deps []
        (var_type \<lparr>var_name = ''x'', var_type = ex_map_type ''a'' ''b''\<rparr>)).
      q @ ''MirippParam'' \<notin> set (touched_qualifiers spec_deps []
        (var_type \<lparr>var_name = ''x'', var_type = ex_map_type ''a'' ''b''\<rparr>))"
    by simp
  show ?thesis using h by (rule AddVar_order_independent)
qed

text \<open>
  C2. The claim: no output of \<open>AddVar\<close> depends on the enumeration order of a map.
  The scope has a variable \<open>a\<close>; the new variable \<open>x\<close> has the type of a map from a
  type of a package \<open>a\<close> to a type of a package \<open>aMirippParam\<close>, which registers
  the two packages under these qualifiers. When \<open>range\<close> visits the entry of \<open>a\<close>
  first, the variable is renamed twice, to \<open>aMirippParamMirippParam\<close>; when it
  visits that entry second, the variable is renamed once, to \<open>aMirippParam\<close>, the
  qualifier of the other package.
\<close>

theorem AddVar_order_dependent:
  "map_option (\<lambda>(r, m, i). (qualifiers r, map Name (vars m)))
     (AddVar spec_deps [0] [] (fresh_scope\<lparr>vars := [placed ''a'' ''a'']\<rparr>)
        \<lparr>var_name = ''x'', var_type = ex_map_type ''a'' ''aMirippParam''\<rparr> '''')
     = Some ([''a'', ''aMirippParam''], [''aMirippParamMirippParam'', ''x'']) \<and>
   map_option (\<lambda>(r, m, i). (qualifiers r, map Name (vars m)))
     (AddVar spec_deps [1] [] (fresh_scope\<lparr>vars := [placed ''a'' ''a'']\<rparr>)
        \<lparr>var_name = ''x'', var_type = ex_map_type ''a'' ''aMirippParam''\<rparr> '''')
     = Some ([''a'', ''aMirippParam''], [''aMirippParam'', ''x''])"
  by (simp add: eval_simps eval_registry)

theorem AddVar_order_dependent_witness:
  "AddVar spec_deps [0] [] (fresh_scope\<lparr>vars := [placed ''a'' ''a'']\<rparr>)
     \<lparr>var_name = ''x'', var_type = ex_map_type ''a'' ''aMirippParam''\<rparr> ''''
   \<noteq> AddVar spec_deps [1] [] (fresh_scope\<lparr>vars := [placed ''a'' ''a'']\<rparr>)
     \<lparr>var_name = ''x'', var_type = ex_map_type ''a'' ''aMirippParam''\<rparr> ''''"
proof
  assume "AddVar spec_deps [0] [] (fresh_scope\<lparr>vars := [placed ''a'' ''a'']\<rparr>)
     \<lparr>var_name = ''x'', var_type = ex_map_type ''a'' ''aMirippParam''\<rparr> ''''
   = AddVar spec_deps [1] [] (fresh_scope\<lparr>vars := [placed ''a'' ''a'']\<rparr>)
     \<lparr>var_name = ''x'', var_type = ex_map_type ''a'' ''aMirippParam''\<rparr> ''''"
  then have "map_option (\<lambda>(r, m, i). (qualifiers r, map Name (vars m)))
     (AddVar spec_deps [0] [] (fresh_scope\<lparr>vars := [placed ''a'' ''a'']\<rparr>)
        \<lparr>var_name = ''x'', var_type = ex_map_type ''a'' ''aMirippParam''\<rparr> '''')
    = map_option (\<lambda>(r, m, i). (qualifiers r, map Name (vars m)))
     (AddVar spec_deps [1] [] (fresh_scope\<lparr>vars := [placed ''a'' ''a'']\<rparr>)
        \<lparr>var_name = ''x'', var_type = ex_map_type ''a'' ''aMirippParam''\<rparr> '''')"
    by (rule arg_cong)
  then have "Some ([''a'', ''aMirippParam''], [''aMirippParamMirippParam'', ''x''])
    = Some ([''a'', ''aMirippParam''], [''aMirippParam'', ''x''])"
    by (simp only: AddVar_order_dependent)
  then show False by simp
qed

end
